theory Spec2Isabelle
  imports Complex_Main "HOL-Library.AList"
begin

section \<open>Strings and path components\<close>

text \<open>
  File and folder names are strings of characters. \<open>str.lower()\<close> is modelled on the
  ASCII letters; every other character is left as it is.
\<close>

definition lower_char :: "char \<Rightarrow> char" where
  "lower_char c =
     (case map_of (zip ''ABCDEFGHIJKLMNOPQRSTUVWXYZ'' ''abcdefghijklmnopqrstuvwxyz'') c of
        Some l \<Rightarrow> l
      | None \<Rightarrow> c)"

definition lower :: "string \<Rightarrow> string" where
  "lower s = map lower_char s"

text \<open>\<open>str.rfind(c)\<close>: the index of the last occurrence of \<open>c\<close>, or \<open>-1\<close>.\<close>

definition rfind :: "string \<Rightarrow> char \<Rightarrow> int" where
  "rfind s c =
     (if c \<in> set s
      then int (length s) - 1 - int (length (takeWhile (\<lambda>x. x \<noteq> c) (rev s)))
      else - 1)"

text \<open>
  \<open>PurePath.suffix\<close> and \<open>PurePath.stem\<close> of pathlib, on the final path component
  \<open>name\<close>: the name is cut at its last dot, unless that dot is the first or the last
  character of the name.
\<close>

definition suffix :: "string \<Rightarrow> string" where
  "suffix name =
     (let i = rfind name (CHR ''.'')
      in if 0 < i \<and> i < int (length name) - 1 then drop (nat i) name else [])"

definition stem :: "string \<Rightarrow> string" where
  "stem name =
     (let i = rfind name (CHR ''.'')
      in if 0 < i \<and> i < int (length name) - 1 then take (nat i) name else name)"

text \<open>\<open>s.startswith(p)\<close>.\<close>

definition startswith :: "string \<Rightarrow> string \<Rightarrow> bool" where
  "startswith s p = (take (length p) s = p)"

section \<open>Rule table and extension index\<close>

text \<open>
  \<open>folder_names\<close> is a dict from a category to a set of extensions and
  \<open>filename_sorting_rules\<close> a dict from a category to a list of prefixes. Both are
  association lists in the dict's iteration order; a set of extensions is listed in
  the order its iteration yields.
\<close>

type_synonym rule_table = "(string \<times> string list) list"
type_synonym extension_map = "string \<rightharpoonup> string"

definition map_extensions_to_folder :: "rule_table \<Rightarrow> extension_map" where
  "map_extensions_to_folder folder_names =
     fold (\<lambda>(folder, extensions) extension_map.
             fold (\<lambda>extension m. m(extension \<mapsto> folder)) extensions extension_map)
          folder_names Map.empty"

section \<open>Classifying a file\<close>

text \<open>The key under which a file is looked up: \<open>suffix[1:].lower()\<close>.\<close>

definition file_extension :: "string \<Rightarrow> string" where
  "file_extension file_name = lower (drop 1 (suffix file_name))"

definition determine_target_folder ::
  "string \<Rightarrow> rule_table \<Rightarrow> extension_map \<Rightarrow> string \<Rightarrow> string" where
  "determine_target_folder file_name filename_sorting_rules extension_map default_folder =
     (let file_stem = stem file_name
      in case find (\<lambda>(folder, patterns). list_ex (startswith file_stem) patterns)
                   filename_sorting_rules of
           Some (folder, patterns) \<Rightarrow> folder
         | None \<Rightarrow>
             (case extension_map (file_extension file_name) of
                Some folder \<Rightarrow> folder
              | None \<Rightarrow> default_folder))"

section \<open>Directory entries and errors\<close>

text \<open>
  An entry of a directory is a file, or a folder with its own listing. A listing is the
  sequence of named entries that \<open>iterdir()\<close> yields, in that order.
\<close>

datatype node = File | Dir "(string \<times> node) list"

type_synonym directory = "(string \<times> node) list"

fun is_file :: "node \<Rightarrow> bool" where
  "is_file File = True"
| "is_file (Dir items) = False"

fun is_dir :: "node \<Rightarrow> bool" where
  "is_dir File = False"
| "is_dir (Dir items) = True"

datatype error =
    KeyError | ValueError
  | FileExistsError | FileNotFoundError | NotADirectoryError | PermissionError | OSError

section \<open>Classifying a folder by its content\<close>

text \<open>
  \<open>file_counts\<close> is a dict from a category to a number, in insertion order: an
  association list, where storing under a new key appends it (\<open>AList.update\<close>).
\<close>

type_synonym counts = "(string \<times> nat) list"

definition dict_get :: "('k \<times> 'v) list \<Rightarrow> 'k \<Rightarrow> 'v \<Rightarrow> 'v" where
  "dict_get d k dflt = (case map_of d k of Some v \<Rightarrow> v | None \<Rightarrow> dflt)"

text \<open>\<open>file_counts["Others"] += 1\<close>: reading a key that is absent raises.\<close>

definition increment_others :: "counts \<Rightarrow> error + counts" where
  "increment_others file_counts =
     (case map_of file_counts ''Others'' of
        None \<Rightarrow> Inl KeyError
      | Some n \<Rightarrow> Inr (AList.update ''Others'' (n + 1) file_counts))"

text \<open>
  What the loop does to \<open>file_counts\<close> for one child file. \<open>if ext_category:\<close> is
  false for \<open>None\<close> and for the empty string.
\<close>

definition count_file :: "string \<Rightarrow> extension_map \<Rightarrow> counts \<Rightarrow> error + counts" where
  "count_file name extension_map file_counts =
     (case extension_map (file_extension name) of
        Some ext_category \<Rightarrow>
          if ext_category \<noteq> []
          then Inr (AList.update ext_category (dict_get file_counts ext_category 0 + 1)
                      file_counts)
          else increment_others file_counts
      | None \<Rightarrow> increment_others file_counts)"

text \<open>The loop over the folder's listing, with \<open>file_counts\<close> and \<open>total_files\<close>.\<close>

fun count_files ::
  "directory \<Rightarrow> extension_map \<Rightarrow> counts \<Rightarrow> nat \<Rightarrow> error + (counts \<times> nat)" where
  "count_files [] extension_map file_counts total_files = Inr (file_counts, total_files)"
| "count_files ((name, item) # items) extension_map file_counts total_files =
     (if is_file item
      then (case count_file name extension_map file_counts of
              Inl e \<Rightarrow> Inl e
            | Inr file_counts' \<Rightarrow>
                count_files items extension_map file_counts' (total_files + 1))
      else count_files items extension_map file_counts total_files)"

text \<open>
  \<open>max(file_counts.items(), key=lambda x: x[1])\<close>: the first item with the greatest
  count; on an empty dict it raises.
\<close>

fun max_item :: "counts \<Rightarrow> error + (string \<times> nat)" where
  "max_item [] = Inl ValueError"
| "max_item (x # xs) = Inr (fold (\<lambda>y best. if snd best < snd y then y else best) xs x)"

text \<open>
  \<open>{category: 0 for category in all_categories}\<close>, where \<open>all_categories\<close> lists
  the set of categories in its iteration order: each category is stored with 0.
\<close>

definition zero_counts :: "string list \<Rightarrow> counts" where
  "zero_counts all_categories =
     fold (\<lambda>category file_counts. AList.update category 0 file_counts) all_categories []"

text \<open>
  \<open>items\<close> is the listing of the folder. The quotient of the two counts is compared
  with one half as a rational number.
\<close>

definition classify_folder_by_content ::
  "directory \<Rightarrow> extension_map \<Rightarrow> string list \<Rightarrow> error + string" where
  "classify_folder_by_content items extension_map all_categories =
     (case count_files items extension_map (zero_counts all_categories) 0 of
        Inl e \<Rightarrow> Inl e
      | Inr (file_counts, total_files) \<Rightarrow>
          if total_files = 0 then Inr ''Others''
          else (case max_item file_counts of
                  Inl e \<Rightarrow> Inl e
                | Inr (predominant_category, predominant_count) \<Rightarrow>
                    if (of_nat predominant_count / of_nat total_files :: rat) > 1 / 2
                    then Inr predominant_category
                    else Inr ''Others''))"

text \<open>
  \<open>set(folder_names.keys()) | set(filename_sorting_rules.keys())\<close>: the union of the
  keys, without repetition; the list gives one order of iteration of the set.
\<close>

definition combine_categories :: "rule_table \<Rightarrow> rule_table \<Rightarrow> string list" where
  "combine_categories folder_names filename_sorting_rules =
     remdups (map fst folder_names @ map fst filename_sorting_rules)"

section \<open>The working directory and the moves\<close>

text \<open>
  The state is the listing of the working directory \<open>downloads_path\<close>. A file or
  folder \<open>downloads_path / name\<close> is named by \<open>name\<close>, and a target
  \<open>downloads_path / folder / name\<close> by the two names; names are single path
  components. \<open>os_error name\<close> is the failure, if any, with which the operating
  system refuses to rename the entry \<open>name\<close> (permissions, a path that is too long,
  another device).
\<close>

datatype level = INFO | WARNING | ERROR

datatype message =
    Moved_file string string
  | Could_not_move string string error
  | File_exists string string
  | Skipping_category string
  | Moved_folder string string
  | Folder_exists string string
  | Folder_in_place string string
  | Organized
  | Error_occurred error

type_synonym log = "(level \<times> message) list"

text \<open>
  A log line is the level of the \<open>logging\<close> call and its message:
  \<open>Moved_file\<close>, \<open>Could_not_move\<close> and \<open>File_exists\<close> are the three lines of
  \<open>move_files\<close>, with the file's name and its target folder;
  \<open>Skipping_category\<close>, \<open>Moved_folder\<close>, \<open>Folder_exists\<close> and \<open>Folder_in_place\<close>
  are the four lines of \<open>move_folders_based_on_content\<close>, with the folder's name and
  its classification; \<open>Organized\<close> and \<open>Error_occurred\<close> are the two lines of the
  main block.
\<close>

definition get_files_and_folders :: "directory \<Rightarrow> string list \<times> string list" where
  "get_files_and_folders d =
     (map fst (filter (\<lambda>(name, entry). is_file entry) d),
      map fst (filter (\<lambda>(name, entry). is_dir entry) d))"

text \<open>\<open>(downloads_path / folder).iterdir()\<close>.\<close>

definition iterdir :: "directory \<Rightarrow> string \<Rightarrow> error + directory" where
  "iterdir d folder =
     (case map_of d folder of
        None \<Rightarrow> Inl FileNotFoundError
      | Some File \<Rightarrow> Inl NotADirectoryError
      | Some (Dir items) \<Rightarrow> Inr items)"

text \<open>\<open>(downloads_path / folder / name).exists()\<close>.\<close>

definition path_exists :: "directory \<Rightarrow> string \<Rightarrow> string \<Rightarrow> bool" where
  "path_exists d folder name =
     (case map_of d folder of
        Some (Dir items) \<Rightarrow> name \<in> fst ` set items
      | _ \<Rightarrow> False)"

text \<open>\<open>(downloads_path / folder).mkdir(exist_ok=True)\<close>.\<close>

definition mkdir :: "directory \<Rightarrow> string \<Rightarrow> error + directory" where
  "mkdir d folder =
     (case map_of d folder of
        None \<Rightarrow> Inr (d @ [(folder, Dir [])])
      | Some File \<Rightarrow> Inl FileExistsError
      | Some (Dir items) \<Rightarrow> Inr d)"

text \<open>
  \<open>(downloads_path / name).rename(downloads_path / folder / name)\<close>: the entry leaves
  the listing of the working directory and is appended to the listing of \<open>folder\<close>.
  It raises when the operating system refuses, when the entry or the folder is missing,
  when \<open>folder\<close> is a file, when a folder would move into itself, and when the target
  exists already (the program tests \<open>exists()\<close> before every call).
\<close>

definition rename ::
  "(string \<Rightarrow> error option) \<Rightarrow> directory \<Rightarrow> string \<Rightarrow> string \<Rightarrow> error + directory" where
  "rename os_error d name folder =
     (case os_error name of
        Some e \<Rightarrow> Inl e
      | None \<Rightarrow>
          (case map_of d name of
             None \<Rightarrow> Inl FileNotFoundError
           | Some entry \<Rightarrow>
               (case map_of d folder of
                  None \<Rightarrow> Inl FileNotFoundError
                | Some File \<Rightarrow> Inl NotADirectoryError
                | Some (Dir items) \<Rightarrow>
                    if folder = name then Inl OSError
                    else if name \<in> fst ` set items then Inl FileExistsError
                    else Inr (AList.update folder (Dir (items @ [(name, entry)]))
                                (AList.delete name d)))))"

text \<open>The two loops of \<open>create_folders\<close>; a failure leaves the folders made so far.\<close>

fun mkdirs :: "directory \<Rightarrow> string list \<Rightarrow> directory \<times> error option" where
  "mkdirs d [] = (d, None)"
| "mkdirs d (folder # folders) =
     (case mkdir d folder of
        Inl e \<Rightarrow> (d, Some e)
      | Inr d' \<Rightarrow> mkdirs d' folders)"

definition create_folders ::
  "directory \<Rightarrow> rule_table \<Rightarrow> rule_table \<Rightarrow> directory \<times> error option" where
  "create_folders d folder_names filename_sorting_rules =
     (case mkdirs d (map fst folder_names) of
        (d', Some e) \<Rightarrow> (d', Some e)
      | (d', None) \<Rightarrow> mkdirs d' (map fst filename_sorting_rules))"

text \<open>The body of the loop of \<open>move_files\<close>, for one file.\<close>

definition move_file ::
  "(string \<Rightarrow> error option) \<Rightarrow> string \<Rightarrow> directory \<Rightarrow> extension_map \<Rightarrow> rule_table
     \<Rightarrow> directory \<times> log" where
  "move_file os_error file d extension_map filename_sorting_rules =
     (let target_folder =
            determine_target_folder file filename_sorting_rules extension_map ''Others''
      in if \<not> path_exists d target_folder file
         then (case rename os_error d file target_folder of
                 Inr d' \<Rightarrow> (d', [(INFO, Moved_file file target_folder)])
               | Inl e \<Rightarrow> (d, [(ERROR, Could_not_move file target_folder e)]))
         else (d, [(WARNING, File_exists file target_folder)]))"

fun move_files ::
  "(string \<Rightarrow> error option) \<Rightarrow> string list \<Rightarrow> directory \<Rightarrow> extension_map \<Rightarrow> rule_table
     \<Rightarrow> directory \<times> log" where
  "move_files os_error [] d extension_map filename_sorting_rules = (d, [])"
| "move_files os_error (file # files) d extension_map filename_sorting_rules =
     (let (d', l) = move_file os_error file d extension_map filename_sorting_rules;
          (d'', l') = move_files os_error files d' extension_map filename_sorting_rules
      in (d'', l @ l'))"

text \<open>
  The body of the loop of \<open>move_folders_based_on_content\<close>, for one folder.
  \<open>wd_name\<close> is \<open>folder.parent.name\<close>, the name of the working directory. The third
  component is the exception that leaves the loop, if there is one.
\<close>

definition move_folder ::
  "(string \<Rightarrow> error option) \<Rightarrow> string \<Rightarrow> string \<Rightarrow> directory \<Rightarrow> string list
     \<Rightarrow> extension_map \<Rightarrow> directory \<times> log \<times> error option" where
  "move_folder os_error wd_name folder d all_categories extension_map =
     (if folder \<in> set all_categories then (d, [(INFO, Skipping_category folder)], None)
      else
        (case iterdir d folder of
           Inl e \<Rightarrow> (d, [], Some e)
         | Inr items \<Rightarrow>
             (case classify_folder_by_content items extension_map all_categories of
                Inl e \<Rightarrow> (d, [], Some e)
              | Inr classification \<Rightarrow>
                  if wd_name \<noteq> classification
                  then (case mkdir d classification of
                          Inl e \<Rightarrow> (d, [], Some e)
                        | Inr d1 \<Rightarrow>
                            if \<not> path_exists d1 classification folder
                            then (case rename os_error d1 folder classification of
                                    Inl e \<Rightarrow> (d1, [], Some e)
                                  | Inr d2 \<Rightarrow>
                                      (d2, [(INFO, Moved_folder folder classification)], None))
                            else (d1, [(WARNING, Folder_exists folder classification)], None))
                  else (d, [(INFO, Folder_in_place folder classification)], None))))"

fun move_folders ::
  "(string \<Rightarrow> error option) \<Rightarrow> string \<Rightarrow> string list \<Rightarrow> directory \<Rightarrow> string list
     \<Rightarrow> extension_map \<Rightarrow> directory \<times> log \<times> error option" where
  "move_folders os_error wd_name [] d all_categories extension_map = (d, [], None)"
| "move_folders os_error wd_name (folder # folders) d all_categories extension_map =
     (case move_folder os_error wd_name folder d all_categories extension_map of
        (d', l, Some e) \<Rightarrow> (d', l, Some e)
      | (d', l, None) \<Rightarrow>
          (let (d'', l', r) =
                 move_folders os_error wd_name folders d' all_categories extension_map
           in (d'', l @ l', r)))"

definition move_folders_based_on_content ::
  "(string \<Rightarrow> error option) \<Rightarrow> string \<Rightarrow> string list \<Rightarrow> directory \<Rightarrow> rule_table
     \<Rightarrow> rule_table \<Rightarrow> extension_map \<Rightarrow> directory \<times> log \<times> error option" where
  "move_folders_based_on_content os_error wd_name folders d folder_names
       filename_sorting_rules extension_map =
     (let all_categories = combine_categories folder_names filename_sorting_rules
      in move_folders os_error wd_name folders d all_categories extension_map)"

text \<open>
  The run of the program on the working directory, with the tables as parameters: the
  listing it leaves and the lines it logs. An exception that leaves a step is caught
  here, logged, and ends the run.
\<close>

definition main ::
  "(string \<Rightarrow> error option) \<Rightarrow> string \<Rightarrow> rule_table \<Rightarrow> rule_table \<Rightarrow> directory
     \<Rightarrow> directory \<times> log" where
  "main os_error wd_name folder_names filename_sorting_rules d =
     (let (files, folders) = get_files_and_folders d
      in case create_folders d folder_names filename_sorting_rules of
           (d1, Some e) \<Rightarrow> (d1, [(ERROR, Error_occurred e)])
         | (d1, None) \<Rightarrow>
             (let extension_map = map_extensions_to_folder folder_names;
                  (d2, log2) = move_files os_error files d1 extension_map filename_sorting_rules
              in case move_folders_based_on_content os_error wd_name folders d2 folder_names
                        filename_sorting_rules extension_map of
                   (d3, log3, Some e) \<Rightarrow> (d3, log2 @ log3 @ [(ERROR, Error_occurred e)])
                 | (d3, log3, None) \<Rightarrow> (d3, log2 @ log3 @ [(INFO, Organized)])))"

section \<open>The tables of the program\<close>

definition folder_names :: rule_table where
  "folder_names =
     [(''Audio'', [''aif'', ''cda'', ''mid'', ''midi'', ''mp3'', ''mpa'', ''ogg'', ''wav'',
                   ''wma'', ''m4a'']),
      (''Compressed'', [''7z'', ''deb'', ''pkg'', ''rar'', ''rpm'', ''tar.gz'', ''z'', ''zip'',
                        ''gz'']),
      (''Code'', [''htm'', ''js'', ''jsp'', ''html'', ''ipynb'', ''py'', ''java'', ''css'',
                  ''php'', ''json'']),
      (''Documents'', [''ods'', ''odt'', ''rtf'', ''ppt'', ''pptx'', ''pdf'', ''xls'', ''xlsx'',
                       ''doc'', ''docx'', ''txt'', ''tex'', ''epub'']),
      (''Images'', [''bmp'', ''gif'', ''ico'', ''jpeg'', ''jpg'', ''png'', ''jfif'', ''svg'',
                    ''tif'', ''tiff'', ''webp'', ''heic'']),
      (''Softwares'', [''apk'', ''bat'', ''bin'', ''exe'', ''jar'', ''msi'', ''iso'']),
      (''Videos'', [''3gp'', ''avi'', ''flv'', ''h264'', ''mkv'', ''mov'', ''mp4'', ''mpg'',
                    ''mpeg'', ''wmv'', ''m4v'']),
      (''Torrents'', [''torrent'']),
      (''WPbackup'', [''wpress'', ''sql'']),
      (''Data'', [''csv'', ''xml'']),
      (''Maps'', [''gpx'']),
      (''Graphics'', [''psd'', ''stl'', ''dwg'']),
      (''Others'', [''NONE''])]"

definition filename_sorting_rules :: rule_table where
  "filename_sorting_rules = [(''Photos'', [''IMG_''])]"

section \<open>Notions used in the statements\<close>

text \<open>
  The names of the direct child files of a folder: the entries of its listing for
  which the loop of \<open>classify_folder_by_content\<close> finds \<open>is_file()\<close> true.
\<close>

definition child_files :: "directory \<Rightarrow> string list" where
  "child_files items = map fst (filter (\<lambda>(name, item). is_file item) items)"

text \<open>
  The key of \<open>file_counts\<close> that the loop increments for a child file: the category of
  its extension, and \<open>Others\<close> when the extension index has no entry for it or an
  empty one.
\<close>

definition bucket :: "extension_map \<Rightarrow> string \<Rightarrow> string" where
  "bucket em name = (case em (file_extension name) of
      Some c \<Rightarrow> if c \<noteq> [] then c else ''Others'' | None \<Rightarrow> ''Others'')"

text \<open>
  \<open>moved_into d name folder d'\<close>: the listing \<open>d'\<close> is \<open>d\<close> after the entry \<open>name\<close>
  has been taken out of the working directory and appended to the listing of its
  folder \<open>folder\<close>. It is what a successful \<open>rename\<close> does.
\<close>

definition moved_into :: "directory \<Rightarrow> string \<Rightarrow> string \<Rightarrow> directory \<Rightarrow> bool" where
  "moved_into d name folder d' =
     (\<exists>entry items. map_of d name = Some entry \<and> map_of d folder = Some (Dir items)
        \<and> folder \<noteq> name \<and> name \<notin> fst ` set items
        \<and> d' = AList.update folder (Dir (items @ [(name, entry)])) (AList.delete name d))"



text \<open>The log lines that report a move.\<close>

fun is_move :: "message \<Rightarrow> bool" where
  "is_move (Moved_file file folder) = True"
| "is_move (Moved_folder folder classification) = True"
| "is_move m = False"

section \<open>Path components and prefixes\<close>

lemmas path_defs = stem_def suffix_def rfind_def file_extension_def lower_def lower_char_def

lemma startswith_iff: "startswith s p \<longleftrightarrow> (\<exists>t. s = p @ t)"
  unfolding startswith_def
  by (metis append_eq_conv_conj append_take_drop_id)

lemma find_first_match:
  assumes "i < length xs" "P (xs ! i)" "\<forall>j<i. \<not> P (xs ! j)"
  shows "find P xs = Some (xs ! i)"
  using assms
proof (induction xs arbitrary: i)
  case Nil then show ?case by simp
next
  case (Cons x xs)
  show ?case
  proof (cases i)
    case 0 with Cons.prems show ?thesis by simp
  next
    case (Suc k)
    with Cons.prems have "\<not> P x" by auto
    moreover have "find P xs = Some (xs ! k)"
      using Cons.prems Suc by (intro Cons.IH) auto
    ultimately show ?thesis using Suc by simp
  qed
qed

lemma lower_char_dot: "lower_char c = CHR ''.'' \<Longrightarrow> c = CHR ''.''"
  by (simp add: lower_char_def split: if_splits)

lemma lower_no_dot: "CHR ''.'' \<in> set (lower s) \<Longrightarrow> CHR ''.'' \<in> set s"
  using lower_char_dot by (fastforce simp: lower_def)

lemma length_takeWhile_less:
  "\<exists>x\<in>set xs. \<not> P x \<Longrightarrow> length (takeWhile P xs) < length xs"
  by (induction xs) auto

lemma drop_after_rfind:
  assumes "c \<in> set s"
  shows "c \<notin> set (drop (nat (rfind s c) + 1) s)"
proof -
  let ?k = "length (takeWhile (\<lambda>x. x \<noteq> c) (rev s))"
  have "?k < length (rev s)" using assms by (intro length_takeWhile_less) simp
  then have lt: "?k < length s" by simp
  have "nat (rfind s c) + 1 = length s - ?k"
    using lt assms by (simp add: rfind_def)
  moreover have "drop (length s - ?k) s = rev (take ?k (rev s))"
    by (simp add: rev_take)
  moreover have "take ?k (rev s) = takeWhile (\<lambda>x. x \<noteq> c) (rev s)"
    by (rule takeWhile_eq_take[symmetric])
  moreover have "c \<notin> set (takeWhile (\<lambda>x. x \<noteq> c) (rev s))"
    by (auto dest: set_takeWhileD)
  ultimately show ?thesis by simp
qed

lemma suffix_tail_no_dot: "CHR ''.'' \<notin> set (drop 1 (suffix name))"
proof (cases "CHR ''.'' \<in> set name")
  case True
  from drop_after_rfind[OF True] show ?thesis
    by (auto simp: suffix_def Let_def add.commute)
next
  case False
  then show ?thesis by (simp add: suffix_def rfind_def)
qed

lemma file_extension_no_dot: "CHR ''.'' \<notin> set (file_extension name)"
  unfolding file_extension_def using suffix_tail_no_dot lower_no_dot by blast

lemma rfind_append_last:
  assumes "c \<notin> set x"
  shows "rfind (a @ c # x) c = int (length a)"
proof -
  have "\<forall>y\<in>set (rev x). y \<noteq> c" using assms by auto
  then have "takeWhile (\<lambda>y. y \<noteq> c) (rev x @ c # rev a) = rev x"
    by (simp add: takeWhile_tail)
  then show ?thesis by (simp add: rfind_def)
qed

lemma suffix_last_segment:
  assumes "a \<noteq> []" "x \<noteq> []" "CHR ''.'' \<notin> set x"
  shows "suffix (a @ CHR ''.'' # x) = CHR ''.'' # x" "stem (a @ CHR ''.'' # x) = a"
  using assms by (simp_all add: suffix_def stem_def rfind_append_last)

lemma photos_rule: "filename_sorting_rules ! 0 = (''Photos'', [''IMG_''])" "length filename_sorting_rules = 1"
  by (simp_all add: filename_sorting_rules_def)

section \<open>The file classifier\<close>

text \<open>
  Claim C1. \<open>determine_target_folder\<close> returns the category of the first filename
  rule, in the order of the rule table, one of whose prefixes is a prefix of the
  file's stem, whatever the extension of the file is. When no rule has such a prefix,
  it returns the entry of the extension index for the file's extension, lowercased and
  without its leading dot, and the default category when the index has no such entry.
\<close>

theorem determine_target_folder_spec:
  "(\<forall>i<length rules.
      (\<exists>p\<in>set (snd (rules ! i)). \<exists>t. stem f = p @ t) \<and>
      (\<forall>j<i. \<not> (\<exists>p\<in>set (snd (rules ! j)). \<exists>t. stem f = p @ t))
      \<longrightarrow> determine_target_folder f rules em d = fst (rules ! i))
   \<and> ((\<forall>i<length rules. \<not> (\<exists>p\<in>set (snd (rules ! i)). \<exists>t. stem f = p @ t))
      \<longrightarrow> determine_target_folder f rules em d =
          (case em (lower (drop 1 (suffix f))) of Some c \<Rightarrow> c | None \<Rightarrow> d))"
proof (intro conjI allI impI)
  let ?P = "\<lambda>(folder, patterns). list_ex (startswith (stem f)) patterns"
  have P: "?P r \<longleftrightarrow> (\<exists>p\<in>set (snd r). \<exists>t. stem f = p @ t)" for r :: "string \<times> string list"
    by (cases r) (simp add: list_ex_iff startswith_iff)
  {
    fix i assume i: "i < length rules"
      and m: "(\<exists>p\<in>set (snd (rules ! i)). \<exists>t. stem f = p @ t) \<and>
      (\<forall>j<i. \<not> (\<exists>p\<in>set (snd (rules ! j)). \<exists>t. stem f = p @ t))"
    have "find ?P rules = Some (rules ! i)"
      using i m by (intro find_first_match) (simp_all only: P, simp_all)
    then show "determine_target_folder f rules em d = fst (rules ! i)"
      by (cases "rules ! i") (simp add: determine_target_folder_def)
  next
    assume n: "\<forall>i<length rules. \<not> (\<exists>p\<in>set (snd (rules ! i)). \<exists>t. stem f = p @ t)"
    have "find ?P rules = None"
      unfolding find_None_iff
    proof
      assume "\<exists>x. x \<in> set rules \<and> ?P x"
      then obtain x where "x \<in> set rules" "?P x" by blast
      then obtain i where "i < length rules" "rules ! i = x" by (auto simp: in_set_conv_nth)
      with n \<open>?P x\<close> show False using P by metis
    qed
    then show "determine_target_folder f rules em d =
          (case em (lower (drop 1 (suffix f))) of Some c \<Rightarrow> c | None \<Rightarrow> d)"
      by (simp add: determine_target_folder_def file_extension_def)
  }
qed

theorem determine_target_folder_spec_witness:
  "determine_target_folder ''IMG_0001.pdf'' filename_sorting_rules
     (map_extensions_to_folder folder_names) ''Others'' = ''Photos''
   \<and> determine_target_folder ''report.PDF'' filename_sorting_rules
     (map_extensions_to_folder folder_names) ''Others'' = ''Documents''
   \<and> determine_target_folder ''notes.xyz'' filename_sorting_rules
     (map_extensions_to_folder folder_names) ''Others'' = ''Others''"
proof -
  let ?em = "map_extensions_to_folder folder_names"
  have s1: "stem ''IMG_0001.pdf'' = ''IMG_'' @ ''0001''" by (simp add: path_defs)
  have a: "determine_target_folder ''IMG_0001.pdf'' filename_sorting_rules ?em ''Others''
           = fst (filename_sorting_rules ! 0)"
    using determine_target_folder_spec[of filename_sorting_rules "''IMG_0001.pdf''" ?em "''Others''"]
      s1 by (simp add: photos_rule)
  have s2: "stem ''report.PDF'' = ''report''" "stem ''notes.xyz'' = ''notes''" by (simp_all add: path_defs)
  have b: "determine_target_folder ''report.PDF'' filename_sorting_rules ?em ''Others''
           = (case ?em (lower (drop 1 (suffix ''report.PDF''))) of Some c \<Rightarrow> c | None \<Rightarrow> ''Others'')"
    using determine_target_folder_spec[of filename_sorting_rules "''report.PDF''" ?em "''Others''"]
      s2 by (simp add: photos_rule)
  have c: "determine_target_folder ''notes.xyz'' filename_sorting_rules ?em ''Others''
           = (case ?em (lower (drop 1 (suffix ''notes.xyz''))) of Some c \<Rightarrow> c | None \<Rightarrow> ''Others'')"
    using determine_target_folder_spec[of filename_sorting_rules "''notes.xyz''" ?em "''Others''"]
      s2 by (simp add: photos_rule)
  have k: "lower (drop 1 (suffix ''report.PDF'')) = ''pdf''" "lower (drop 1 (suffix ''notes.xyz'')) = ''xyz''"
    by (simp_all add: path_defs)
  have m: "?em ''pdf'' = Some ''Documents''" "?em ''xyz'' = None"
    by (simp_all add: map_extensions_to_folder_def folder_names_def)
  show ?thesis using a b c k m by (simp add: photos_rule)
qed

text \<open>
  Claim C10. Prefixes are compared character by character, so the letter case counts:
  the stem \<open>img_0001\<close> does not start with the registered prefix \<open>IMG_\<close>, and the file
  is classified by its extension, whose lookup ignores the letter case.
\<close>

theorem prefix_matching_case_sensitive:
  "\<not> startswith ''img_0001'' ''IMG_''
   \<and> startswith ''IMG_0001'' ''IMG_''
   \<and> determine_target_folder ''img_0001.jpg'' filename_sorting_rules
       (map_extensions_to_folder folder_names) ''Others'' = ''Images''
   \<and> determine_target_folder ''IMG_0001.jpg'' filename_sorting_rules
       (map_extensions_to_folder folder_names) ''Others'' = ''Photos''
   \<and> determine_target_folder ''holiday.JPG'' filename_sorting_rules
       (map_extensions_to_folder folder_names) ''Others'' = ''Images''
   \<and> (\<forall>s p. startswith s p = (\<exists>t. s = p @ t))"
proof -
  let ?em = "map_extensions_to_folder folder_names"
  have m: "?em ''jpg'' = Some ''Images''"
    by (simp add: map_extensions_to_folder_def folder_names_def)
  have k: "file_extension ''img_0001.jpg'' = ''jpg''" "file_extension ''holiday.JPG'' = ''jpg''"
    "stem ''img_0001.jpg'' = ''img_0001''" "stem ''IMG_0001.jpg'' = ''IMG_0001''"
    "stem ''holiday.JPG'' = ''holiday''"
    by (simp_all add: path_defs)
  show ?thesis
    using m k by (simp add: determine_target_folder_def filename_sorting_rules_def startswith_def
        startswith_iff[unfolded startswith_def])
qed

section \<open>Extensions with several parts\<close>

lemma count_file_cong:
  "em1 (file_extension name) = em2 (file_extension name) \<Longrightarrow>
   count_file name em1 fc = count_file name em2 fc"
  by (simp add: count_file_def)

lemma count_files_cong:
  "(\<And>name. em1 (file_extension name) = em2 (file_extension name)) \<Longrightarrow>
   count_files items em1 fc t = count_files items em2 fc t"
proof (induction items em1 fc t rule: count_files.induct)
  case (1 em fc t)
  then show ?case by simp
next
  case (2 name item items em fc t)
  have c: "count_file name em fc = count_file name em2 fc"
    using "2.prems" by (rule count_file_cong)
  show ?case
  proof (cases "is_file item")
    case True
    show ?thesis
    proof (cases "count_file name em2 fc")
      case (Inl e)
      then show ?thesis using True c by simp
    next
      case (Inr fc')
      then have "count_files items em fc' (t + 1) = count_files items em2 fc' (t + 1)"
        using "2.IH"(1)[OF True, of fc'] c "2.prems" by simp
      then show ?thesis using True c Inr by simp
    qed
  next
    case False
    then show ?thesis using "2.IH"(2) "2.prems" by simp
  qed
qed

text \<open>
  Claim C9. The key of the extension lookup is the text after the last dot of the name,
  so it holds no dot. An extension of the table that holds a dot, such as \<open>tar.gz\<close>,
  is matched by no file, in \<open>determine_target_folder\<close> and in
  \<open>classify_folder_by_content\<close>: the entry can be removed from the extension index
  without changing any result. \<open>archive.tar.gz\<close> is looked up under \<open>gz\<close>.
\<close>

theorem extension_is_final_suffix:
  "(a \<noteq> [] \<and> x \<noteq> [] \<and> CHR ''.'' \<notin> set x \<longrightarrow> file_extension (a @ ''.'' @ x) = lower x)
   \<and> (CHR ''.'' \<in> set e \<longrightarrow>
        determine_target_folder f rules (em(e \<mapsto> c)) d =
          determine_target_folder f rules (em(e := None)) d
        \<and> classify_folder_by_content items (em(e \<mapsto> c)) cats =
          classify_folder_by_content items (em(e := None)) cats)"
proof (intro conjI impI)
  assume "a \<noteq> [] \<and> x \<noteq> [] \<and> CHR ''.'' \<notin> set x"
  then show "file_extension (a @ ''.'' @ x) = lower x"
    by (simp add: file_extension_def suffix_last_segment)
next
  assume e: "CHR ''.'' \<in> set e"
  have ne: "file_extension name \<noteq> e" for name
    using e file_extension_no_dot by metis
  then have eq: "(em(e \<mapsto> c)) (file_extension name) = (em(e := None)) (file_extension name)"
    for name by simp
  show "determine_target_folder f rules (em(e \<mapsto> c)) d =
          determine_target_folder f rules (em(e := None)) d"
    unfolding determine_target_folder_def using ne by (simp cong: option.case_cong)
  have "count_files items (em(e \<mapsto> c)) fc t = count_files items (em(e := None)) fc t" for fc t
    by (rule count_files_cong) (rule eq)
  then show "classify_folder_by_content items (em(e \<mapsto> c)) cats =
          classify_folder_by_content items (em(e := None)) cats"
    unfolding classify_folder_by_content_def by simp
qed

theorem extension_is_final_suffix_witness:
  "file_extension ''archive.tar.gz'' = ''gz''
   \<and> determine_target_folder ''archive.tar.gz'' [] [''tar.gz'' \<mapsto> ''Compressed''] ''Others''
       = ''Others''
   \<and> classify_folder_by_content [(''archive.tar.gz'', File)] [''tar.gz'' \<mapsto> ''Compressed'']
       [''Compressed'', ''Others'']
       = Inr ''Others''"
proof -
  have 1: "file_extension (''archive.tar'' @ ''.'' @ ''gz'') = lower ''gz''"
    using extension_is_final_suffix[of "''archive.tar''" "''gz''"] by simp
  have 2: "determine_target_folder ''archive.tar.gz'' [] (Map.empty(''tar.gz'' \<mapsto> ''Compressed'')) ''Others''
           = determine_target_folder ''archive.tar.gz'' [] (Map.empty(''tar.gz'' := None)) ''Others''"
    and 3: "classify_folder_by_content [(''archive.tar.gz'', File)] (Map.empty(''tar.gz'' \<mapsto> ''Compressed'')) [''Compressed'', ''Others'']
           = classify_folder_by_content [(''archive.tar.gz'', File)] (Map.empty(''tar.gz'' := None)) [''Compressed'', ''Others'']"
    using extension_is_final_suffix[of _ _ "''tar.gz''" "''archive.tar.gz''" "[]" Map.empty "''Compressed''" "''Others''"
          "[(''archive.tar.gz'', File)]" "[''Compressed'', ''Others'']"] by simp_all
  have 4: "determine_target_folder ''archive.tar.gz'' [] (Map.empty(''tar.gz'' := None)) ''Others'' = ''Others''"
    by (simp add: determine_target_folder_def)
  have 5: "classify_folder_by_content [(''archive.tar.gz'', File)] (Map.empty(''tar.gz'' := None)) [''Compressed'', ''Others''] = Inr ''Others''"
    by (simp add: classify_folder_by_content_def zero_counts_def count_file_def
        increment_others_def)
  show ?thesis using 1 2 3 4 5 by (simp add: lower_def lower_char_def)
qed

section \<open>Counting the files of a folder\<close>

lemma fold_update_keys:
  "fst ` set (fold (\<lambda>c fc. AList.update c (0::nat) fc) cats fc0) = set cats \<union> fst ` set fc0"
proof (induction cats arbitrary: fc0)
  case Nil
  show ?case by simp
next
  case (Cons c cats)
  have "fst ` set (AList.update c (0::nat) fc0) = insert c (fst ` set fc0)"
    by (simp add: AList.dom_update)
  then show ?case using Cons[of "AList.update c 0 fc0"] by simp
qed

lemma zero_counts_keys: "fst ` set (zero_counts cats) = set cats"
  by (simp add: zero_counts_def fold_update_keys)

lemma fold_update_distinct:
  "distinct (map fst fc0) \<Longrightarrow>
   distinct (map fst (fold (\<lambda>c fc. AList.update c (0::nat) fc) cats fc0))"
proof (induction cats arbitrary: fc0)
  case Nil
  then show ?case by simp
next
  case (Cons c cats)
  have "distinct (map fst (AList.update c (0::nat) fc0))"
    using Cons.prems by (rule AList.distinct_update)
  then show ?case using Cons.IH[of "AList.update c 0 fc0"] by simp
qed

lemma zero_counts_distinct: "distinct (map fst (zero_counts cats))"
  by (simp add: zero_counts_def fold_update_distinct)

lemma dict_get_update:
  "dict_get (AList.update k v fc) c d = (if c = k then v else dict_get fc c d)"
  by (simp add: dict_get_def AList.update_conv')

lemma fold_update_get:
  "dict_get fc0 c 0 = 0 \<Longrightarrow>
   dict_get (fold (\<lambda>c fc. AList.update c (0::nat) fc) cats fc0) c 0 = 0"
proof (induction cats arbitrary: fc0)
  case Nil
  then show ?case by simp
next
  case (Cons k cats)
  have "dict_get (AList.update k (0::nat) fc0) c 0 = 0"
    using Cons.prems by (simp add: dict_get_update)
  then show ?case using Cons.IH[of "AList.update k 0 fc0"] by simp
qed

lemma zero_counts_get: "dict_get (zero_counts cats) c 0 = 0"
  unfolding zero_counts_def by (rule fold_update_get) (simp add: dict_get_def)

lemma count_file_bucket:
  assumes "''Others'' \<in> fst ` set fc"
  shows "count_file name em fc =
           Inr (AList.update (bucket em name) (dict_get fc (bucket em name) 0 + 1) fc)"
proof -
  from assms have "map_of fc ''Others'' \<noteq> None"
    by (simp add: map_of_eq_None_iff)
  then obtain n where n: "map_of fc ''Others'' = Some n" by blast
  then have "increment_others fc = Inr (AList.update ''Others'' (dict_get fc ''Others'' 0 + 1) fc)"
    by (simp add: increment_others_def dict_get_def)
  then show ?thesis
    by (simp add: count_file_def bucket_def split: option.splits)
qed

lemma child_files_simps:
  "child_files [] = []"
  "child_files ((name, item) # items) =
     (if is_file item then name # child_files items else child_files items)"
  by (simp_all add: child_files_def)

lemma count_files_buckets:
  assumes "''Others'' \<in> fst ` set fc" "distinct (map fst fc)"
  shows "\<exists>fc'. count_files items em fc t = Inr (fc', t + length (child_files items))
           \<and> distinct (map fst fc')
           \<and> (\<forall>c. dict_get fc' c 0 = dict_get fc c 0 + count_list (map (bucket em) (child_files items)) c)"
  using assms
proof (induction items arbitrary: fc t)
  case Nil
  then show ?case by (simp add: child_files_simps)
next
  case (Cons a items)
  obtain name item where a: "a = (name, item)" by (cases a)
  show ?case
  proof (cases "is_file item")
    case False
    from Cons.IH[OF Cons.prems, of t] show ?thesis
      using False a by (simp add: child_files_simps)
  next
    case True
    let ?b = "bucket em name"
    let ?fc1 = "AList.update ?b (dict_get fc ?b 0 + 1) fc"
    have cf: "count_file name em fc = Inr ?fc1" using Cons.prems(1) by (rule count_file_bucket)
    have o1: "''Others'' \<in> fst ` set ?fc1" using Cons.prems(1) by (simp add: AList.dom_update)
    have d1: "distinct (map fst ?fc1)" using Cons.prems(2) by (rule AList.distinct_update)
    from Cons.IH[OF o1 d1, of "t + 1"] obtain fc' where
      r: "count_files items em ?fc1 (t + 1) = Inr (fc', t + 1 + length (child_files items))"
      and d: "distinct (map fst fc')"
      and g: "\<And>c. dict_get fc' c 0 = dict_get ?fc1 c 0 + count_list (map (bucket em) (child_files items)) c"
      by blast
    have r': "count_files (a # items) em fc t = Inr (fc', t + length (child_files (a # items)))"
      using True a cf r by (simp add: child_files_simps)
    have g': "dict_get fc' c 0 = dict_get fc c 0 + count_list (map (bucket em) (child_files (a # items))) c" for c
      unfolding g[of c] dict_get_update using True a by (simp add: child_files_simps)
    show ?thesis using r' d g' by blast
  qed
qed

lemma fold_max_greatest:
  "fold (\<lambda>y best. if snd best < snd y then y else best) xs x \<in> set (x # xs)
   \<and> (\<forall>y\<in>set (x # xs). snd y \<le> snd (fold (\<lambda>y best. if snd best < snd y then y else best) xs x))"
  for xs :: "(string \<times> nat) list"
proof (induction xs arbitrary: x)
  case Nil
  show ?case by simp
next
  case (Cons y ys)
  let ?x' = "if snd x < snd y then y else x"
  let ?m = "fold (\<lambda>y best. if snd best < snd y then y else best) ys ?x'"
  have 1: "?m \<in> set (?x' # ys)" and 2: "\<forall>z\<in>set (?x' # ys). snd z \<le> snd ?m"
    using Cons[of ?x'] by blast+
  have m: "fold (\<lambda>y best. if snd best < snd y then y else best) (y # ys) x = ?m" by simp
  have a: "?m \<in> set (x # y # ys)" using 1 by (auto split: if_splits)
  have x': "snd ?x' \<le> snd ?m" using 2 by simp
  have "snd x \<le> snd ?x'" "snd y \<le> snd ?x'" by auto
  then have b: "snd x \<le> snd ?m" "snd y \<le> snd ?m" using x' by linarith+
  have c: "\<forall>z\<in>set ys. snd z \<le> snd ?m" using 2 by simp
  show ?case unfolding m using a b c by simp
qed

lemma max_item_greatest:
  assumes "fc \<noteq> []"
  shows "\<exists>k n. max_item fc = Inr (k, n) \<and> (k, n) \<in> set fc \<and> (\<forall>y\<in>set fc. snd y \<le> n)"
proof -
  obtain x xs where fc: "fc = x # xs" using assms by (cases fc) auto
  obtain k n where kn: "fold (\<lambda>y best. if snd best < snd y then y else best) xs x = (k, n)"
    by (cases "fold (\<lambda>y best. if snd best < snd y then y else best) xs x")
  have "max_item fc = Inr (k, n)" using fc kn by simp
  moreover have "(k, n) \<in> set fc" using fold_max_greatest[of xs x] kn fc by simp
  moreover have "\<forall>y\<in>set fc. snd y \<le> n" using fold_max_greatest[of xs x] kn fc by simp
  ultimately show ?thesis by blast
qed

lemma half_rat: "0 < t \<Longrightarrow> ((1::rat) / 2 < of_nat n / of_nat t) = (t < 2 * n)"
proof -
  assume t: "0 < t"
  have "((1::rat) / 2 < of_nat n / of_nat t) = ((1::rat) / 2 * of_nat t < of_nat n)"
    using t by (simp add: pos_less_divide_eq)
  also have "\<dots> = ((of_nat t :: rat) < of_nat (2 * n))" by (simp add: mult.commute)
  also have "\<dots> = (t < 2 * n)" by (simp only: of_nat_less_iff)
  finally show ?thesis .
qed

lemma count_list_two: "k \<noteq> c \<Longrightarrow> count_list xs k + count_list xs c \<le> length xs"
  by (induction xs) auto

lemma count_list_map_filter:
  "count_list (map f xs) c = length (filter (\<lambda>x. f x = c) xs)"
  by (induction xs) auto

lemma count_list_pos: "xs \<noteq> [] \<Longrightarrow> \<exists>c. 0 < count_list xs c"
  by (cases xs) auto

lemma classify_by_buckets:
  fixes em :: extension_map and items :: directory
  assumes o: "''Others'' \<in> set cats"
  defines "B \<equiv> map (bucket em) (child_files items)"
  shows "length B < 2 * count_list B c \<Longrightarrow> classify_folder_by_content items em cats = Inr c"
    and "(\<forall>c. c \<noteq> ''Others'' \<longrightarrow> \<not> length B < 2 * count_list B c) \<Longrightarrow>
           classify_folder_by_content items em cats = Inr ''Others''"
proof -
  have o': "''Others'' \<in> fst ` set (zero_counts cats)" using o by (simp add: zero_counts_keys)
  from count_files_buckets[OF o' zero_counts_distinct, of items em 0]
  obtain fc' where r: "count_files items em (zero_counts cats) 0 = Inr (fc', length B)"
    and d: "distinct (map fst fc')"
    and g: "\<And>c. dict_get fc' c 0 = count_list B c"
    unfolding B_def by (auto simp: zero_counts_get)
  have both: "(length B < 2 * count_list B c \<longrightarrow> classify_folder_by_content items em cats = Inr c)
    \<and> ((\<forall>c. c \<noteq> ''Others'' \<longrightarrow> \<not> length B < 2 * count_list B c) \<longrightarrow>
           classify_folder_by_content items em cats = Inr ''Others'')"
  proof (cases "length B = 0")
    case True
    then show ?thesis using r by (simp add: classify_folder_by_content_def)
  next
    case False
    then have "B \<noteq> []" by simp
    then obtain b where "0 < count_list B b" using count_list_pos by blast
    then have "dict_get fc' b 0 \<noteq> 0" using g by simp
    then have "fc' \<noteq> []" by (auto simp: dict_get_def)
    from max_item_greatest[OF this] obtain k m where
      mx: "max_item fc' = Inr (k, m)" and km: "(k, m) \<in> set fc'" and gr: "\<forall>y\<in>set fc'. snd y \<le> m"
      by blast
    have "map_of fc' k = Some m" using d km by simp
    then have mk: "m = count_list B k" using g[of k] by (simp add: dict_get_def)
    have le: "count_list B c' \<le> m" for c'
    proof (cases "map_of fc' c'")
      case None
      then show ?thesis using g[of c'] by (simp add: dict_get_def)
    next
      case (Some v)
      then have "(c', v) \<in> set fc'" by (rule map_of_SomeD)
      then have "v \<le> m" using gr by fastforce
      then show ?thesis using g[of c'] Some by (simp add: dict_get_def)
    qed
    have res: "classify_folder_by_content items em cats =
                 (if length B < 2 * m then Inr k else Inr ''Others'')"
      using r mx False by (simp add: classify_folder_by_content_def half_rat)
    show ?thesis
    proof (intro conjI impI)
      assume maj: "length B < 2 * count_list B c"
      have "k = c"
      proof (rule ccontr)
        assume "k \<noteq> c"
        then have "count_list B k + count_list B c \<le> length B" by (rule count_list_two)
        then show False using maj le[of c] mk by linarith
      qed
      moreover have "length B < 2 * m" using maj le[of c] by linarith
      ultimately show "classify_folder_by_content items em cats = Inr c" using res by simp
    next
      assume no: "\<forall>c. c \<noteq> ''Others'' \<longrightarrow> \<not> length B < 2 * count_list B c"
      show "classify_folder_by_content items em cats = Inr ''Others''"
      proof (cases "length B < 2 * m")
        case True
        then have "k = ''Others''" using no mk by blast
        then show ?thesis using res by simp
      next
        case False
        then show ?thesis using res by simp
      qed
    qed
  qed
  show "length B < 2 * count_list B c \<Longrightarrow> classify_folder_by_content items em cats = Inr c"
    using both by blast
  show "(\<forall>c. c \<noteq> ''Others'' \<longrightarrow> \<not> length B < 2 * count_list B c) \<Longrightarrow>
           classify_folder_by_content items em cats = Inr ''Others''"
    using both by blast
qed

lemma bucket_not_empty: "bucket em f \<noteq> []"
  by (simp add: bucket_def split: option.splits)

lemma bucket_of_mapped: "c \<noteq> [] \<Longrightarrow> em (file_extension f) = Some c \<Longrightarrow> bucket em f = c"
  by (simp add: bucket_def)

lemma bucket_other:
  "c \<noteq> ''Others'' \<Longrightarrow> (bucket em f = c) = (c \<noteq> [] \<and> em (file_extension f) = Some c)"
  by (auto simp: bucket_def split: option.splits)

lemma bucket_Others:
  "(bucket em f = ''Others'') =
     (em (file_extension f) = None \<or> em (file_extension f) = Some [] \<or>
      em (file_extension f) = Some ''Others'')"
  by (auto simp: bucket_def split: option.splits)

lemma mapped_le_bucket:
  assumes "c \<noteq> []"
  shows "length (filter (\<lambda>f. em (file_extension f) = Some c) fs)
           \<le> count_list (map (bucket em) fs) c"
  unfolding count_list_map_filter
  using assms by (induction fs) (auto simp: bucket_of_mapped)

lemma mapped_eq_bucket:
  assumes "c \<noteq> []" "c \<noteq> ''Others''"
  shows "count_list (map (bucket em) fs) c
           = length (filter (\<lambda>f. em (file_extension f) = Some c) fs)"
  unfolding count_list_map_filter using assms by (simp add: bucket_other)

lemma empty_bucket_count: "count_list (map (bucket em) fs) [] = 0"
  unfolding count_list_map_filter by (simp add: bucket_not_empty)

lemmas classify_defs = classify_folder_by_content_def zero_counts_def count_file_def
  increment_others_def dict_get_def

lemma ext_samples:
  "file_extension ''a.mp3'' = ''mp3''" "file_extension ''b.mp3'' = ''mp3''"
  "file_extension ''c.mp3'' = ''mp3''" "file_extension ''c.txt'' = ''txt''"
  "file_extension ''d.txt'' = ''txt''" "file_extension ''notes.xyz'' = ''xyz''"
  by (simp_all add: path_defs)

section \<open>The folder classifier\<close>

text \<open>
  Claim C2. With \<open>Others\<close> among the categories, \<open>classify_folder_by_content\<close>
  returns the category to which the extension index maps more than half of the direct
  child files of the folder, the total counting every direct child file, mapped or not.
  When no category has more than half of them (an empty folder, a folder without
  files, an exact half) it returns \<open>Others\<close>. Three files of one category and one of
  another give the first; two and two give \<open>Others\<close>.
\<close>

theorem classify_folder_by_content_majority:
  assumes "''Others'' \<in> set all_categories"
  shows "(\<forall>c. c \<noteq> [] \<and>
              length (child_files items)
                < 2 * length (filter (\<lambda>f. em (file_extension f) = Some c) (child_files items))
            \<longrightarrow> classify_folder_by_content items em all_categories = Inr c)
       \<and> ((\<forall>c. c \<noteq> [] \<longrightarrow>
              \<not> length (child_files items)
                < 2 * length (filter (\<lambda>f. em (file_extension f) = Some c) (child_files items)))
            \<longrightarrow> classify_folder_by_content items em all_categories = Inr ''Others'')"
proof (intro conjI allI impI)
  fix c
  assume a: "c \<noteq> [] \<and> length (child_files items)
                < 2 * length (filter (\<lambda>f. em (file_extension f) = Some c) (child_files items))"
  then have "length (map (bucket em) (child_files items))
               < 2 * count_list (map (bucket em) (child_files items)) c"
    using mapped_le_bucket[of c em "child_files items"] by simp
  then show "classify_folder_by_content items em all_categories = Inr c"
    by (rule classify_by_buckets(1)[OF assms])
next
  assume n: "\<forall>c. c \<noteq> [] \<longrightarrow>
              \<not> length (child_files items)
                < 2 * length (filter (\<lambda>f. em (file_extension f) = Some c) (child_files items))"
  have "\<forall>c. c \<noteq> ''Others'' \<longrightarrow> \<not> length (map (bucket em) (child_files items))
               < 2 * count_list (map (bucket em) (child_files items)) c"
  proof (intro allI impI)
    fix c :: string
    assume c: "c \<noteq> ''Others''"
    show "\<not> length (map (bucket em) (child_files items))
               < 2 * count_list (map (bucket em) (child_files items)) c"
    proof (cases "c = []")
      case True
      then show ?thesis by (simp add: empty_bucket_count)
    next
      case False
      then show ?thesis using n c by (simp add: mapped_eq_bucket)
    qed
  qed
  then show "classify_folder_by_content items em all_categories = Inr ''Others''"
    by (rule classify_by_buckets(2)[OF assms])
qed

theorem classify_folder_by_content_majority_witness:
  "classify_folder_by_content
     [(''a.mp3'', File), (''b.mp3'', File), (''c.mp3'', File), (''d.txt'', File)]
     [''mp3'' \<mapsto> ''Audio'', ''txt'' \<mapsto> ''Documents''] [''Audio'', ''Documents'', ''Others'']
     = Inr ''Audio''
   \<and> classify_folder_by_content
     [(''a.mp3'', File), (''b.mp3'', File), (''c.txt'', File), (''d.txt'', File)]
     [''mp3'' \<mapsto> ''Audio'', ''txt'' \<mapsto> ''Documents''] [''Audio'', ''Documents'', ''Others'']
     = Inr ''Others''
   \<and> classify_folder_by_content [(''sub'', Dir [(''a.mp3'', File)])]
     [''mp3'' \<mapsto> ''Audio'', ''txt'' \<mapsto> ''Documents''] [''Audio'', ''Documents'', ''Others'']
     = Inr ''Others''"
proof -
  let ?em = "[''mp3'' \<mapsto> ''Audio'', ''txt'' \<mapsto> ''Documents'']"
  let ?cats = "[''Audio'', ''Documents'', ''Others'']"
  have o: "''Others'' \<in> set ?cats" by simp
  have 1: "classify_folder_by_content
     [(''a.mp3'', File), (''b.mp3'', File), (''c.mp3'', File), (''d.txt'', File)] ?em ?cats
     = Inr ''Audio''"
    using classify_folder_by_content_majority[OF o, THEN conjunct1, THEN spec, of "''Audio''"
        "[(''a.mp3'', File), (''b.mp3'', File), (''c.mp3'', File), (''d.txt'', File)]" ?em]
    by (simp add: child_files_simps ext_samples)
  have 2: "classify_folder_by_content
     [(''a.mp3'', File), (''b.mp3'', File), (''c.txt'', File), (''d.txt'', File)] ?em ?cats
     = Inr ''Others''"
    using classify_folder_by_content_majority[OF o, THEN conjunct2,
        of "[(''a.mp3'', File), (''b.mp3'', File), (''c.txt'', File), (''d.txt'', File)]" ?em]
    by (simp add: child_files_simps ext_samples)
  have 3: "classify_folder_by_content [(''sub'', Dir [(''a.mp3'', File)])] ?em ?cats
     = Inr ''Others''"
    using classify_folder_by_content_majority[OF o, THEN conjunct2,
        of "[(''sub'', Dir [(''a.mp3'', File)])]" ?em]
    by (simp add: child_files_simps)
  show ?thesis using 1 2 3 by simp
qed

text \<open>
  Claim C3, as stated, fails: a child file whose extension is not in the extension
  index is counted under the key \<open>Others\<close> of \<open>file_counts\<close>, the counter of the
  category \<open>Others\<close> itself. Here the count of \<open>Others\<close> goes from 0 to 1.
\<close>

theorem unmapped_file_counts_as_Others_counterexample:
  "[''mp3'' \<mapsto> ''Audio''] (file_extension ''notes.xyz'') = None
   \<and> zero_counts [''Audio'', ''Others''] = [(''Audio'', 0), (''Others'', 0)]
   \<and> count_files [(''notes.xyz'', File)] [''mp3'' \<mapsto> ''Audio'']
        (zero_counts [''Audio'', ''Others'']) 0
      = Inr ([(''Audio'', 0), (''Others'', 1)], 1)"
  by (simp add: ext_samples classify_defs)

text \<open>
  Claim C3, amended. With \<open>Others\<close> among the categories, the loop ends with the
  count of \<open>Others\<close> equal to the number of child files that the extension index does
  not map, maps to the empty string or maps to \<open>Others\<close>; the count of every other
  category is the number of child files mapped to it. There is no bucket apart from the
  categories.
\<close>

theorem unmapped_files_count_as_Others:
  assumes "''Others'' \<in> set all_categories"
  shows "\<exists>file_counts.
           count_files items em (zero_counts all_categories) 0
             = Inr (file_counts, length (child_files items))
         \<and> dict_get file_counts ''Others'' 0
             = length (filter (\<lambda>f. em (file_extension f) = None
                                  \<or> em (file_extension f) = Some []
                                  \<or> em (file_extension f) = Some ''Others'')
                         (child_files items))
         \<and> (\<forall>c. c \<noteq> ''Others'' \<and> c \<noteq> [] \<longrightarrow>
                dict_get file_counts c 0
                  = length (filter (\<lambda>f. em (file_extension f) = Some c) (child_files items)))"
proof -
  have o': "''Others'' \<in> fst ` set (zero_counts all_categories)"
    using assms by (simp add: zero_counts_keys)
  from count_files_buckets[OF o' zero_counts_distinct, of items em 0]
  obtain fc' where r: "count_files items em (zero_counts all_categories) 0
                         = Inr (fc', length (child_files items))"
    and g: "\<And>c. dict_get fc' c 0 = count_list (map (bucket em) (child_files items)) c"
    by (auto simp: zero_counts_get)
  have 1: "dict_get fc' ''Others'' 0
             = length (filter (\<lambda>f. em (file_extension f) = None
                                  \<or> em (file_extension f) = Some []
                                  \<or> em (file_extension f) = Some ''Others'')
                         (child_files items))"
    unfolding g count_list_map_filter bucket_Others ..
  have 2: "\<forall>c. c \<noteq> ''Others'' \<and> c \<noteq> [] \<longrightarrow>
                dict_get fc' c 0
                  = length (filter (\<lambda>f. em (file_extension f) = Some c) (child_files items))"
    unfolding g by (simp add: mapped_eq_bucket)
  show ?thesis using r 1 2 by blast
qed

theorem unmapped_files_count_as_Others_witness:
  "\<exists>file_counts.
     count_files [(''notes.xyz'', File), (''a.mp3'', File)] [''mp3'' \<mapsto> ''Audio'']
        (zero_counts [''Audio'', ''Others'']) 0 = Inr (file_counts, 2)
     \<and> dict_get file_counts ''Others'' 0 = 1
     \<and> dict_get file_counts ''Audio'' 0 = 1"
proof -
  have o: "''Others'' \<in> set [''Audio'', ''Others'']" by simp
  from unmapped_files_count_as_Others[OF o,
      of "[(''notes.xyz'', File), (''a.mp3'', File)]" "[''mp3'' \<mapsto> ''Audio'']"]
  obtain fc where
    r: "count_files [(''notes.xyz'', File), (''a.mp3'', File)] [''mp3'' \<mapsto> ''Audio'']
          (zero_counts [''Audio'', ''Others'']) 0
        = Inr (fc, length (child_files [(''notes.xyz'', File), (''a.mp3'', File)]))"
    and a: "dict_get fc ''Others'' 0
             = length (filter (\<lambda>f. [''mp3'' \<mapsto> ''Audio''] (file_extension f) = None
                                  \<or> [''mp3'' \<mapsto> ''Audio''] (file_extension f) = Some []
                                  \<or> [''mp3'' \<mapsto> ''Audio''] (file_extension f) = Some ''Others'')
                         (child_files [(''notes.xyz'', File), (''a.mp3'', File)]))"
    and b: "\<forall>c. c \<noteq> ''Others'' \<and> c \<noteq> [] \<longrightarrow>
                dict_get fc c 0
                  = length (filter (\<lambda>f. [''mp3'' \<mapsto> ''Audio''] (file_extension f) = Some c)
                      (child_files [(''notes.xyz'', File), (''a.mp3'', File)]))"
    by blast
  have r': "count_files [(''notes.xyz'', File), (''a.mp3'', File)] [''mp3'' \<mapsto> ''Audio'']
          (zero_counts [''Audio'', ''Others'']) 0 = Inr (fc, 2)"
    using r by (simp add: child_files_simps)
  have a': "dict_get fc ''Others'' 0 = 1" using a by (simp add: child_files_simps ext_samples)
  have b': "dict_get fc ''Audio'' 0 = 1"
    using b[THEN spec, of "''Audio''"] by (simp add: child_files_simps ext_samples)
  show ?thesis using r' a' b' by blast
qed

text \<open>
  Claim C8 fails on the code: without \<open>Others\<close> among the categories, a child file
  with an unmapped extension makes \<open>file_counts["Others"] += 1\<close> raise
  \<open>KeyError\<close>, where the branch for a mapped extension reads the count with a default.
\<close>

theorem classify_folder_by_content_raises:
  "classify_folder_by_content [(''notes.xyz'', File)] [''mp3'' \<mapsto> ''Audio''] [''Audio'']
     = Inl KeyError
   \<and> classify_folder_by_content [(''a.mp3'', File)] [''mp3'' \<mapsto> ''Audio''] [''Audio'']
     = Inr ''Audio''"
  by (simp add: ext_samples classify_defs half_rat)

section \<open>Moves in the working directory\<close>

lemma rename_Inr:
  "rename os d name folder = Inr d' \<Longrightarrow> os name = None \<and> moved_into d name folder d'"
  by (auto simp: rename_def moved_into_def split: option.splits node.splits if_splits)



lemma moved_into_map_of:
  assumes "moved_into d name folder d'"
  shows "map_of d' n = (if n = folder then
            (case map_of d folder of Some (Dir items) \<Rightarrow>
               Some (Dir (items @ [(name, the (map_of d name))])) | _ \<Rightarrow> None)
          else if n = name then None else map_of d n)"
  using assms by (auto simp: moved_into_def AList.update_conv' AList.delete_conv')

lemma moved_into_other:
  "moved_into d name folder d' \<Longrightarrow> n \<noteq> folder \<Longrightarrow> n \<noteq> name \<Longrightarrow> map_of d' n = map_of d n"
  by (simp add: moved_into_map_of)


lemma moved_into_target:
  "moved_into d name folder d' \<Longrightarrow> map_of d folder = Some (Dir items) \<Longrightarrow>
   map_of d' folder = Some (Dir (items @ [(name, the (map_of d name))]))"
  by (auto simp: moved_into_def AList.update_conv' AList.delete_conv')


lemma moved_into_path_exists:
  assumes "moved_into d name folder d'" "path_exists d c x" "c \<noteq> name"
  shows "path_exists d' c x"
proof (cases "c = folder")
  case True
  then show ?thesis using assms
    by (auto simp: path_exists_def moved_into_def AList.update_conv' split: option.splits node.splits)
next
  case False
  then show ?thesis using assms by (simp add: path_exists_def moved_into_other)
qed

lemma mkdir_present: "map_of d c = Some (Dir items) \<Longrightarrow> mkdir d c = Inr d"
  by (simp add: mkdir_def)

lemma mkdir_Inr:
  "mkdir d c = Inr d' \<Longrightarrow>
     (\<exists>items. map_of d c = Some (Dir items) \<and> d' = d) \<or> (map_of d c = None \<and> d' = d @ [(c, Dir [])])"
  by (auto simp: mkdir_def split: option.splits node.splits)

lemma mkdir_keeps:
  "mkdir d c = Inr d' \<Longrightarrow> map_of d n = Some e \<Longrightarrow> map_of d' n = Some e"
  by (auto dest!: mkdir_Inr simp: map_add_Some_iff)

lemma moved_into_keeps_dir:
  assumes "moved_into d x c d'" "x \<noteq> n" "map_of d n = Some (Dir items)"
  shows "\<exists>items'. map_of d' n = Some (Dir items')"
  using assms by (cases "n = c") (simp_all add: moved_into_target moved_into_other)

lemma move_file_cases:
  "move_file os file d em rules = (d', l) \<Longrightarrow>
     (d' = d \<and> (\<forall>m\<in>set l. \<not> is_move (snd m)))
     \<or> (moved_into d file (determine_target_folder file rules em ''Others'') d'
        \<and> l = [(INFO, Moved_file file (determine_target_folder file rules em ''Others''))])"
  by (auto simp: move_file_def Let_def split: if_splits sum.splits dest: rename_Inr)

lemma move_files_keeps_dir:
  assumes "move_files os files d em rules = (d', l)" "n \<notin> set files"
    "map_of d n = Some (Dir items)"
  shows "\<exists>items'. map_of d' n = Some (Dir items')"
  using assms
proof (induction files arbitrary: d d' l items)
  case Nil
  then show ?case by simp
next
  case (Cons f files)
  obtain d1 l1 where s: "move_file os f d em rules = (d1, l1)" by (cases "move_file os f d em rules")
  obtain d2 l2 where r: "move_files os files d1 em rules = (d2, l2)"
    by (cases "move_files os files d1 em rules")
  have d': "d' = d2" using Cons.prems(1) s r by simp
  have "\<exists>items1. map_of d1 n = Some (Dir items1)"
    using move_file_cases[OF s] Cons.prems(2,3) moved_into_keeps_dir[of d f _ d1 n items] by auto
  then obtain items1 where "map_of d1 n = Some (Dir items1)" by blast
  from Cons.IH[OF r _ this] Cons.prems(2) show ?case unfolding d' by simp
qed

lemma move_folder_skip:
  "folder \<in> set cats \<Longrightarrow>
   move_folder os wd folder d cats em = (d, [(INFO, Skipping_category folder)], None)"
  by (simp add: move_folder_def)

lemma move_folder_cases:
  assumes "move_folder os wd folder d cats em = (d', l, r)"
  shows "folder \<in> set cats \<and> d' = d \<and> l = [(INFO, Skipping_category folder)] \<and> r = None
     \<or> folder \<notin> set cats \<and> (\<exists>c. (d' = d \<or> mkdir d c = Inr d') \<and> (\<forall>m\<in>set l. \<not> is_move (snd m)))
     \<or> folder \<notin> set cats \<and> (\<exists>c d1. mkdir d c = Inr d1 \<and> moved_into d1 folder c d'
          \<and> l = [(INFO, Moved_folder folder c)] \<and> r = None)"
proof (cases "folder \<in> set cats")
  case True
  then show ?thesis using assms by (simp add: move_folder_def)
next
  case False
  then show ?thesis using assms
    by (auto simp: move_folder_def split: sum.splits if_splits dest: rename_Inr)
qed

lemma move_folder_keeps_dir:
  assumes "move_folder os wd folder d cats em = (d', l, r)" "n \<in> set cats"
    "map_of d n = Some (Dir items)"
  shows "\<exists>items'. map_of d' n = Some (Dir items')"
proof -
  from move_folder_cases[OF assms(1)] consider
    "d' = d" | c where "mkdir d c = Inr d'"
    | c d1 where "folder \<notin> set cats" "mkdir d c = Inr d1" "moved_into d1 folder c d'"
    by blast
  then show ?thesis
  proof cases
    case 1
    then show ?thesis using assms(3) by simp
  next
    case 2
    then show ?thesis using assms(3) mkdir_keeps by blast
  next
    case 3
    have "map_of d1 n = Some (Dir items)" using 3(2) assms(3) by (rule mkdir_keeps)
    moreover have "folder \<noteq> n" using 3(1) assms(2) by auto
    ultimately show ?thesis using 3(3) moved_into_keeps_dir by blast
  qed
qed

lemma move_folder_log:
  assumes "move_folder os wd folder d cats em = (d', l, r)" "n \<in> set cats"
  shows "\<forall>lv c. (lv, Moved_folder n c) \<notin> set l \<and> (lv, Folder_exists n c) \<notin> set l
                \<and> (lv, Folder_in_place n c) \<notin> set l"
proof (cases "folder \<in> set cats")
  case True
  then show ?thesis using assms(1) by (auto simp: move_folder_def)
next
  case False
  then have "folder \<noteq> n" using assms(2) by auto
  then show ?thesis using assms(1) False
    by (auto simp: move_folder_def split: sum.splits if_splits)
qed

lemma move_folders_keeps_dir:
  assumes "move_folders os wd folders d cats em = (d', l, r)" "n \<in> set cats"
    "map_of d n = Some (Dir items)"
  shows "(\<exists>items'. map_of d' n = Some (Dir items'))
       \<and> (\<forall>lv c. (lv, Moved_folder n c) \<notin> set l \<and> (lv, Folder_exists n c) \<notin> set l
                \<and> (lv, Folder_in_place n c) \<notin> set l)"
  using assms
proof (induction folders arbitrary: d d' l r items)
  case Nil
  then show ?case by simp
next
  case (Cons g folders)
  obtain d1 l1 r1 where s: "move_folder os wd g d cats em = (d1, l1, r1)"
    by (cases "move_folder os wd g d cats em") auto
  from move_folder_keeps_dir[OF s Cons.prems(2,3)] obtain items1 where
    k1: "map_of d1 n = Some (Dir items1)" by blast
  note g1 = move_folder_log[OF s Cons.prems(2)]
  show ?case
  proof (cases r1)
    case (Some e)
    then have "d' = d1" "l = l1" using Cons.prems(1) s by simp_all
    then show ?thesis using k1 g1 by simp
  next
    case None
    obtain d2 l2 r2 where r: "move_folders os wd folders d1 cats em = (d2, l2, r2)"
      by (cases "move_folders os wd folders d1 cats em") auto
    have e: "d' = d2" "l = l1 @ l2" using Cons.prems(1) s r None by simp_all
    from Cons.IH[OF r Cons.prems(2) k1] g1 show ?thesis unfolding e by auto
  qed
qed

lemma mkdirs_keeps:
  "mkdirs d ns = (d', r) \<Longrightarrow> map_of d n = Some e \<Longrightarrow> map_of d' n = Some e"
proof (induction ns arbitrary: d)
  case Nil
  then show ?case by simp
next
  case (Cons c ns)
  show ?case
  proof (cases "mkdir d c")
    case (Inl x)
    then show ?thesis using Cons.prems by simp
  next
    case (Inr d1)
    then have "map_of d1 n = Some e" using Cons.prems(2) mkdir_keeps by blast
    moreover have "mkdirs d1 ns = (d', r)" using Cons.prems(1) Inr by simp
    ultimately show ?thesis using Cons.IH by blast
  qed
qed

lemma create_folders_keeps:
  assumes "create_folders d fns rules = (d', r)" "map_of d n = Some e"
  shows "map_of d' n = Some e"
proof -
  obtain d1 r1 where 1: "mkdirs d (map fst fns) = (d1, r1)" by (cases "mkdirs d (map fst fns)")
  have k: "map_of d1 n = Some e" using 1 assms(2) by (rule mkdirs_keeps)
  show ?thesis
  proof (cases r1)
    case None
    then have "mkdirs d1 (map fst rules) = (d', r)" using assms(1) 1 by (simp add: create_folders_def)
    then show ?thesis using k by (rule mkdirs_keeps)
  next
    case (Some x)
    then show ?thesis using assms(1) 1 k by (simp add: create_folders_def)
  qed
qed

lemma files_are_files:
  assumes "distinct (map fst d)" "f \<in> set (fst (get_files_and_folders d))"
  shows "map_of d f = Some File"
proof -
  from assms(2) obtain e where "(f, e) \<in> set d" "is_file e"
    by (auto simp: get_files_and_folders_def)
  then have "(f, File) \<in> set d" by (cases e) auto
  then show ?thesis using assms(1) by simp
qed


lemma move_files_log_no_folder: 
  "move_files os files d em rules = (d', l) \<Longrightarrow> (lv, Moved_folder n c) \<notin> set l"
proof (induction files arbitrary: d d' l)
  case Nil
  then show ?case by simp
next
  case (Cons f files)
  obtain d1 l1 where s: "move_file os f d em rules = (d1, l1)" by (cases "move_file os f d em rules")
  obtain d2 l2 where r: "move_files os files d1 em rules = (d2, l2)"
    by (cases "move_files os files d1 em rules")
  have l: "l = l1 @ l2" using Cons.prems s r by simp
  have "(lv, Moved_folder n c) \<notin> set l1" using move_file_cases[OF s] by fastforce
  then show ?case using Cons.IH[OF r] l by simp
qed

lemma Others_in_table: "''Others'' \<in> set (combine_categories folder_names filename_sorting_rules)"
  by (simp add: combine_categories_def folder_names_def)

section \<open>Category folders\<close>

text \<open>
  Claim C7. A folder of the working directory whose name is a key of the rule table or
  of the filename rules is skipped by the folder step before anything is read from it:
  the step leaves the listing as it is and logs the skip. Through
  \<open>move_folders_based_on_content\<close>, for any list of folders, and through the whole run,
  such a folder stays a folder of the working directory, and no line of the log reports
  it moved, in collision or in place. \<open>Others\<close> is a key of the program's table.
\<close>

theorem category_folders_are_never_moved:
  assumes "name \<in> set (combine_categories fns rules)"
  shows "move_folder os wd name d (combine_categories fns rules) em
           = (d, [(INFO, Skipping_category name)], None)
       \<and> (\<forall>folders d' l r items.
             map_of d name = Some (Dir items)
             \<and> move_folders_based_on_content os wd folders d fns rules em = (d', l, r)
             \<longrightarrow> (\<exists>items'. map_of d' name = Some (Dir items'))
                \<and> (\<forall>lv c. (lv, Moved_folder name c) \<notin> set l
                        \<and> (lv, Folder_exists name c) \<notin> set l
                        \<and> (lv, Folder_in_place name c) \<notin> set l))
       \<and> (\<forall>d' l items.
             distinct (map fst d) \<and> map_of d name = Some (Dir items)
             \<and> main os wd fns rules d = (d', l)
             \<longrightarrow> (\<exists>items'. map_of d' name = Some (Dir items'))
                \<and> (\<forall>lv c. (lv, Moved_folder name c) \<notin> set l))
       \<and> ''Others'' \<in> set (combine_categories folder_names filename_sorting_rules)"
proof -
  have A: "move_folder os wd name d (combine_categories fns rules) em
           = (d, [(INFO, Skipping_category name)], None)"
    using assms by (rule move_folder_skip)
  have B: "\<forall>folders d' l r items.
             map_of d name = Some (Dir items)
             \<and> move_folders_based_on_content os wd folders d fns rules em = (d', l, r)
             \<longrightarrow> (\<exists>items'. map_of d' name = Some (Dir items'))
                \<and> (\<forall>lv c. (lv, Moved_folder name c) \<notin> set l
                        \<and> (lv, Folder_exists name c) \<notin> set l
                        \<and> (lv, Folder_in_place name c) \<notin> set l)"
  proof (intro allI impI)
    fix folders d' l r items
    assume a: "map_of d name = Some (Dir items)
               \<and> move_folders_based_on_content os wd folders d fns rules em = (d', l, r)"
    then have "move_folders os wd folders d (combine_categories fns rules) em = (d', l, r)"
      by (simp add: move_folders_based_on_content_def)
    from move_folders_keeps_dir[OF this assms] a
    show "(\<exists>items'. map_of d' name = Some (Dir items'))
                \<and> (\<forall>lv c. (lv, Moved_folder name c) \<notin> set l
                        \<and> (lv, Folder_exists name c) \<notin> set l
                        \<and> (lv, Folder_in_place name c) \<notin> set l)"
      by blast
  qed
  have C: "\<forall>d' l items.
             distinct (map fst d) \<and> map_of d name = Some (Dir items)
             \<and> main os wd fns rules d = (d', l)
             \<longrightarrow> (\<exists>items'. map_of d' name = Some (Dir items'))
                \<and> (\<forall>lv c. (lv, Moved_folder name c) \<notin> set l)"
  proof (intro allI impI)
    fix d' l items
    assume a: "distinct (map fst d) \<and> map_of d name = Some (Dir items)
               \<and> main os wd fns rules d = (d', l)"
    let ?files = "fst (get_files_and_folders d)"
    let ?folders = "snd (get_files_and_folders d)"
    let ?em = "map_extensions_to_folder fns"
    obtain d1 r1 where c: "create_folders d fns rules = (d1, r1)"
      by (cases "create_folders d fns rules")
    have k1: "map_of d1 name = Some (Dir items)" using c a by (auto intro: create_folders_keeps)
    show "(\<exists>items'. map_of d' name = Some (Dir items')) \<and> (\<forall>lv c. (lv, Moved_folder name c) \<notin> set l)"
    proof (cases r1)
      case (Some e)
      then have "d' = d1" "l = [(ERROR, Error_occurred e)]"
        using a c by (auto simp: main_def split: prod.splits)
      then show ?thesis using k1 by simp
    next
      case None
      obtain d2 l2 where f: "move_files os ?files d1 ?em rules = (d2, l2)"
        by (cases "move_files os ?files d1 ?em rules")
      obtain d3 l3 r3 where g: "move_folders os wd ?folders d2 (combine_categories fns rules) ?em
                                  = (d3, l3, r3)"
        by (cases "move_folders os wd ?folders d2 (combine_categories fns rules) ?em") auto
      have nf: "name \<notin> set ?files" using files_are_files[of d name] a by auto
      from move_files_keeps_dir[OF f nf k1] obtain items2 where
        k2: "map_of d2 name = Some (Dir items2)" by blast
      note k3 = move_folders_keeps_dir[OF g assms k2]
      have "d' = d3 \<and> (\<exists>x. l = l2 @ l3 @ [x] \<and> (\<forall>lv c. x \<noteq> (lv, Moved_folder name c)))"
        using a c None f g
        by (auto simp: main_def move_folders_based_on_content_def split: prod.splits option.splits)
      then show ?thesis using k3 move_files_log_no_folder[OF f] by auto
    qed
  qed
  show ?thesis by (rule conjI[OF A conjI[OF B conjI[OF C Others_in_table]]])
qed

theorem category_folders_are_never_moved_witness:
  "move_folder (\<lambda>n. None) ''Downloads'' ''Audio''
       [(''Audio'', Dir [(''a.txt'', File), (''b.txt'', File)]), (''song.mp3'', File)]
       (combine_categories folder_names filename_sorting_rules)
       (map_extensions_to_folder folder_names)
     = ([(''Audio'', Dir [(''a.txt'', File), (''b.txt'', File)]), (''song.mp3'', File)],
        [(INFO, Skipping_category ''Audio'')], None)
   \<and> (\<exists>items'. map_of (fst (main (\<lambda>n. None) ''Downloads'' folder_names filename_sorting_rules
                   [(''Audio'', Dir [(''a.txt'', File), (''b.txt'', File)]), (''song.mp3'', File)]))
                 ''Audio'' = Some (Dir items'))"
proof -
  let ?d = "[(''Audio'', Dir [(''a.txt'', File), (''b.txt'', File)]), (''song.mp3'', File)]"
  have n: "''Audio'' \<in> set (combine_categories folder_names filename_sorting_rules)"
    by (simp add: combine_categories_def folder_names_def)
  note t = category_folders_are_never_moved[OF n, of "\<lambda>n. None" "''Downloads''" ?d
      "map_extensions_to_folder folder_names"]
  have 1: "move_folder (\<lambda>n. None) ''Downloads'' ''Audio'' ?d
       (combine_categories folder_names filename_sorting_rules)
       (map_extensions_to_folder folder_names)
     = (?d, [(INFO, Skipping_category ''Audio'')], None)"
    using t by (rule conjunct1)
  have h: "distinct (map fst ?d) \<and> map_of ?d ''Audio'' = Some (Dir [(''a.txt'', File), (''b.txt'', File)])
     \<and> main (\<lambda>n. None) ''Downloads'' folder_names filename_sorting_rules ?d
        = (fst (main (\<lambda>n. None) ''Downloads'' folder_names filename_sorting_rules ?d),
           snd (main (\<lambda>n. None) ''Downloads'' folder_names filename_sorting_rules ?d))"
    by simp
  have 2: "\<exists>items'. map_of (fst (main (\<lambda>n. None) ''Downloads'' folder_names filename_sorting_rules ?d))
                 ''Audio'' = Some (Dir items')"
    using t[THEN conjunct2, THEN conjunct2, THEN conjunct1, THEN spec, THEN spec, THEN spec,
        THEN mp, OF h] by (rule conjunct1)
  show ?thesis using 1 2 by (rule conjI)
qed

section \<open>Collisions\<close>

lemma move_files_frame:
  assumes "move_files os files d em rules = (d', l)" "T \<notin> set files"
    "map_of d file = Some File" "path_exists d T file"
    "T = determine_target_folder file rules em ''Others''"
  shows "map_of d' file = Some File \<and> path_exists d' T file
       \<and> (file \<in> set files \<longrightarrow> (WARNING, File_exists file T) \<in> set l)"
  using assms(1-4)
proof (induction files arbitrary: d d' l)
  case Nil
  then show ?case by simp
next
  case (Cons g files)
  obtain d1 l1 where s: "move_file os g d em rules = (d1, l1)" by (cases "move_file os g d em rules")
  obtain d2 l2 where r: "move_files os files d1 em rules = (d2, l2)"
    by (cases "move_files os files d1 em rules")
  have e: "d' = d2" "l = l1 @ l2" using Cons.prems(1) s r by simp_all
  have gT: "g \<noteq> T" using Cons.prems(2) by auto
  have inv: "map_of d1 file = Some File \<and> path_exists d1 T file
             \<and> (g = file \<longrightarrow> (WARNING, File_exists file T) \<in> set l1)"
  proof (cases "g = file")
    case True
    then show ?thesis using s Cons.prems(3,4) assms(5) by (auto simp: move_file_def)
  next
    case False
    from move_file_cases[OF s] show ?thesis
    proof
      assume "d1 = d \<and> (\<forall>m\<in>set l1. \<not> is_move (snd m))"
      then show ?thesis using Cons.prems(3,4) False by simp
    next
      assume m: "moved_into d g (determine_target_folder g rules em ''Others'') d1 \<and>
          l1 = [(INFO, Moved_file g (determine_target_folder g rules em ''Others''))]"
      let ?Tg = "determine_target_folder g rules em ''Others''"
      have "file \<noteq> ?Tg" using m Cons.prems(3) by (auto simp: moved_into_def)
      then have "map_of d1 file = Some File"
        using m False Cons.prems(3) moved_into_other[of d g ?Tg d1 "file"] by simp
      moreover have "path_exists d1 T file"
        using m Cons.prems(4) gT moved_into_path_exists by blast
      ultimately show ?thesis using False by simp
    qed
  qed
  have "T \<notin> set files" using Cons.prems(2) by simp
  from Cons.IH[OF r this] inv show ?case unfolding e by auto
qed

lemma move_files_target_grows:
  assumes "move_files os files d em rules = (d', l)" "T \<notin> set files"
    "map_of d T = Some (Dir items)"
  shows "\<exists>items'. map_of d' T = Some (Dir (items @ items'))"
  using assms
proof (induction files arbitrary: d d' l items)
  case Nil
  then show ?case by simp
next
  case (Cons g files)
  obtain d1 l1 where s: "move_file os g d em rules = (d1, l1)" by (cases "move_file os g d em rules")
  obtain d2 l2 where r: "move_files os files d1 em rules = (d2, l2)"
    by (cases "move_files os files d1 em rules")
  have e: "d' = d2" using Cons.prems(1) s r by simp
  have gT: "g \<noteq> T" "T \<notin> set files" using Cons.prems(2) by auto
  have "\<exists>its. map_of d1 T = Some (Dir (items @ its))"
  proof -
    from move_file_cases[OF s] show ?thesis
    proof
      assume "d1 = d \<and> (\<forall>m\<in>set l1. \<not> is_move (snd m))"
      then show ?thesis using Cons.prems(3) by simp
    next
      assume m: "moved_into d g (determine_target_folder g rules em ''Others'') d1 \<and>
          l1 = [(INFO, Moved_file g (determine_target_folder g rules em ''Others''))]"
      show ?thesis
      proof (cases "T = determine_target_folder g rules em ''Others''")
        case True
        then show ?thesis using m Cons.prems(3) moved_into_target by fastforce
      next
        case False
        then show ?thesis using m gT Cons.prems(3)
            moved_into_other[of d g "determine_target_folder g rules em ''Others''" d1 T] by simp
      qed
    qed
  qed
  then obtain its where "map_of d1 T = Some (Dir (items @ its))" by blast
  from Cons.IH[OF r gT(2) this] show ?case unfolding e by auto
qed

text \<open>
  Claim C5. When an entry of the same name exists at the target before the move, the
  step for a file and the step for a folder leave the whole listing as it is (the source
  stays, the destination is not overwritten, nothing is renamed) and log a warning.
  Through the loop of \<open>move_files\<close> over files of the working directory, a file whose
  target exists at the start is still there at the end, the listing of the target
  folder has only grown at its end, and the warning is in the log.
\<close>

theorem collision_skips_the_move:
  "(path_exists d (determine_target_folder f rules em ''Others'') f \<longrightarrow>
      move_file os f d em rules
        = (d, [(WARNING, File_exists f (determine_target_folder f rules em ''Others''))]))
   \<and> (folder \<notin> set cats \<and> iterdir d folder = Inr items
        \<and> classify_folder_by_content items em cats = Inr c \<and> wd \<noteq> c \<and> path_exists d c folder \<longrightarrow>
      move_folder os wd folder d cats em = (d, [(WARNING, Folder_exists folder c)], None))
   \<and> (distinct (map fst d) \<and> set files \<subseteq> set (fst (get_files_and_folders d))
        \<and> f \<in> set files
        \<and> path_exists d (determine_target_folder f rules em ''Others'') f
        \<and> move_files os files d em rules = (d', l) \<longrightarrow>
      map_of d' f = Some File
      \<and> (\<exists>its its'. map_of d (determine_target_folder f rules em ''Others'') = Some (Dir its)
            \<and> map_of d' (determine_target_folder f rules em ''Others'') = Some (Dir (its @ its')))
      \<and> (WARNING, File_exists f (determine_target_folder f rules em ''Others'')) \<in> set l)"
proof -
  let ?T = "determine_target_folder f rules em ''Others''"
  have A: "path_exists d ?T f \<longrightarrow>
      move_file os f d em rules = (d, [(WARNING, File_exists f ?T)])"
    by (simp add: move_file_def)
  have B: "folder \<notin> set cats \<and> iterdir d folder = Inr items
        \<and> classify_folder_by_content items em cats = Inr c \<and> wd \<noteq> c \<and> path_exists d c folder \<longrightarrow>
      move_folder os wd folder d cats em = (d, [(WARNING, Folder_exists folder c)], None)"
  proof
    assume a: "folder \<notin> set cats \<and> iterdir d folder = Inr items
        \<and> classify_folder_by_content items em cats = Inr c \<and> wd \<noteq> c \<and> path_exists d c folder"
    then obtain its where "map_of d c = Some (Dir its)"
      by (auto simp: path_exists_def split: option.splits node.splits)
    then have "mkdir d c = Inr d" by (rule mkdir_present)
    then show "move_folder os wd folder d cats em = (d, [(WARNING, Folder_exists folder c)], None)"
      using a by (simp add: move_folder_def)
  qed
  have C: "distinct (map fst d) \<and> set files \<subseteq> set (fst (get_files_and_folders d))
        \<and> f \<in> set files \<and> path_exists d ?T f
        \<and> move_files os files d em rules = (d', l) \<longrightarrow>
      map_of d' f = Some File
      \<and> (\<exists>its its'. map_of d ?T = Some (Dir its) \<and> map_of d' ?T = Some (Dir (its @ its')))
      \<and> (WARNING, File_exists f ?T) \<in> set l"
  proof
    assume a: "distinct (map fst d) \<and> set files \<subseteq> set (fst (get_files_and_folders d))
        \<and> f \<in> set files \<and> path_exists d ?T f
        \<and> move_files os files d em rules = (d', l)"
    then obtain its where T: "map_of d ?T = Some (Dir its)"
      by (auto simp: path_exists_def split: option.splits node.splits)
    have f: "map_of d f = Some File" using a files_are_files by blast
    have nT: "?T \<notin> set files"
    proof
      assume "?T \<in> set files"
      then have "map_of d ?T = Some File" using a files_are_files by blast
      then show False using T by simp
    qed
    have m: "move_files os files d em rules = (d', l)" using a by simp
    have p: "path_exists d ?T f" using a by simp
    from move_files_frame[OF m nT f p refl] a
    have 1: "map_of d' f = Some File" "(WARNING, File_exists f ?T) \<in> set l" by simp_all
    from move_files_target_grows[OF m nT T] obtain its' where
      "map_of d' ?T = Some (Dir (its @ its'))" by blast
    then show "map_of d' f = Some File
      \<and> (\<exists>its its'. map_of d ?T = Some (Dir its) \<and> map_of d' ?T = Some (Dir (its @ its')))
      \<and> (WARNING, File_exists f ?T) \<in> set l"
      using 1 T by blast
  qed
  show ?thesis by (rule conjI[OF A conjI[OF B C]])
qed

theorem collision_skips_the_move_witness:
  "move_file (\<lambda>n. None) ''a.mp3''
      [(''a.mp3'', File), (''b.mp3'', File), (''mix'', Dir [(''x.mp3'', File)]),
       (''Audio'', Dir [(''a.mp3'', File), (''mix'', Dir [])])]
      [''mp3'' \<mapsto> ''Audio''] []
    = ([(''a.mp3'', File), (''b.mp3'', File), (''mix'', Dir [(''x.mp3'', File)]),
        (''Audio'', Dir [(''a.mp3'', File), (''mix'', Dir [])])],
       [(WARNING, File_exists ''a.mp3'' ''Audio'')])
   \<and> move_folder (\<lambda>n. None) ''Downloads'' ''mix''
      [(''a.mp3'', File), (''b.mp3'', File), (''mix'', Dir [(''x.mp3'', File)]),
       (''Audio'', Dir [(''a.mp3'', File), (''mix'', Dir [])])]
      [''Audio'', ''Others''] [''mp3'' \<mapsto> ''Audio'']
    = ([(''a.mp3'', File), (''b.mp3'', File), (''mix'', Dir [(''x.mp3'', File)]),
        (''Audio'', Dir [(''a.mp3'', File), (''mix'', Dir [])])],
       [(WARNING, Folder_exists ''mix'' ''Audio'')], None)
   \<and> map_of (fst (move_files (\<lambda>n. None) [''a.mp3'', ''b.mp3'']
          [(''a.mp3'', File), (''b.mp3'', File), (''mix'', Dir [(''x.mp3'', File)]),
           (''Audio'', Dir [(''a.mp3'', File), (''mix'', Dir [])])]
          [''mp3'' \<mapsto> ''Audio''] [])) ''a.mp3'' = Some File
   \<and> (WARNING, File_exists ''a.mp3'' ''Audio'')
       \<in> set (snd (move_files (\<lambda>n. None) [''a.mp3'', ''b.mp3'']
          [(''a.mp3'', File), (''b.mp3'', File), (''mix'', Dir [(''x.mp3'', File)]),
           (''Audio'', Dir [(''a.mp3'', File), (''mix'', Dir [])])]
          [''mp3'' \<mapsto> ''Audio''] []))"
proof -
  let ?d = "[(''a.mp3'', File), (''b.mp3'', File), (''mix'', Dir [(''x.mp3'', File)]),
             (''Audio'', Dir [(''a.mp3'', File), (''mix'', Dir [])])]"
  let ?em = "[''mp3'' \<mapsto> ''Audio'']"
  let ?os = "\<lambda>n::string. None :: error option"
  let ?r = "move_files ?os [''a.mp3'', ''b.mp3''] ?d ?em []"
  have T: "determine_target_folder ''a.mp3'' [] ?em ''Others'' = ''Audio''"
    by (simp add: determine_target_folder_def path_defs)
  have X: "file_extension ''x.mp3'' = ''mp3''" by (simp add: path_defs)
  have h1: "path_exists ?d (determine_target_folder ''a.mp3'' [] ?em ''Others'') ''a.mp3''"
    unfolding T by (simp add: path_exists_def)
  have h2: "''mix'' \<notin> set [''Audio'', ''Others''] \<and> iterdir ?d ''mix'' = Inr [(''x.mp3'', File)]
        \<and> classify_folder_by_content [(''x.mp3'', File)] ?em [''Audio'', ''Others''] = Inr ''Audio''
        \<and> ''Downloads'' \<noteq> ''Audio'' \<and> path_exists ?d ''Audio'' ''mix''"
    by (simp add: iterdir_def path_exists_def classify_defs X half_rat)
  have h3: "distinct (map fst ?d) \<and> set [''a.mp3'', ''b.mp3''] \<subseteq> set (fst (get_files_and_folders ?d))
        \<and> ''a.mp3'' \<in> set [''a.mp3'', ''b.mp3'']
        \<and> path_exists ?d (determine_target_folder ''a.mp3'' [] ?em ''Others'') ''a.mp3''
        \<and> move_files ?os [''a.mp3'', ''b.mp3''] ?d ?em [] = (fst ?r, snd ?r)"
    using h1 by (simp add: get_files_and_folders_def)
  note t = collision_skips_the_move[of ?d "''a.mp3''" "[]" ?em ?os "''mix''"
      "[''Audio'', ''Others'']" "[(''x.mp3'', File)]" "''Audio''" "''Downloads''"
      "[''a.mp3'', ''b.mp3'']" "fst ?r" "snd ?r"]
  have 1: "move_file ?os ''a.mp3'' ?d ?em [] = (?d, [(WARNING, File_exists ''a.mp3'' ''Audio'')])"
    using t[THEN conjunct1, THEN mp, OF h1] unfolding T .
  have 2: "move_folder ?os ''Downloads'' ''mix'' ?d [''Audio'', ''Others''] ?em
             = (?d, [(WARNING, Folder_exists ''mix'' ''Audio'')], None)"
    using t[THEN conjunct2, THEN conjunct1, THEN mp, OF h2] .
  have 3: "map_of (fst ?r) ''a.mp3'' = Some File
           \<and> (WARNING, File_exists ''a.mp3'' ''Audio'') \<in> set (snd ?r)"
    using t[THEN conjunct2, THEN conjunct2, THEN mp, OF h3] unfolding T by blast
  show ?thesis using 1 2 3 by blast
qed

section \<open>Failures of a move\<close>

text \<open>
  Claim C4 fails on the code for folders. \<open>move_files\<close> catches the failure of a
  rename, logs it and goes on with the next file. \<open>move_folders_based_on_content\<close>
  does not catch it: when the rename of folder \<open>a\<close> is refused, the exception ends the
  run and folder \<open>b\<close> is never looked at, where a run without the failure moves both.
\<close>

theorem folder_move_failure_ends_the_run:
  "main (\<lambda>n. if n = ''a'' then Some PermissionError else None) ''Downloads'' folder_names
     filename_sorting_rules [(''a'', Dir []), (''b'', Dir [])]
   = ([(''a'', Dir []), (''b'', Dir []), (''Audio'', Dir []), (''Compressed'', Dir []),
       (''Code'', Dir []), (''Documents'', Dir []), (''Images'', Dir []),
       (''Softwares'', Dir []), (''Videos'', Dir []), (''Torrents'', Dir []),
       (''WPbackup'', Dir []), (''Data'', Dir []), (''Maps'', Dir []), (''Graphics'', Dir []),
       (''Others'', Dir []), (''Photos'', Dir [])],
      [(ERROR, Error_occurred PermissionError)])
   \<and> main (\<lambda>n. None) ''Downloads'' folder_names
     filename_sorting_rules [(''a'', Dir []), (''b'', Dir [])]
   = ([(''Audio'', Dir []), (''Compressed'', Dir []),
       (''Code'', Dir []), (''Documents'', Dir []), (''Images'', Dir []),
       (''Softwares'', Dir []), (''Videos'', Dir []), (''Torrents'', Dir []),
       (''WPbackup'', Dir []), (''Data'', Dir []), (''Maps'', Dir []), (''Graphics'', Dir []),
       (''Others'', Dir [(''a'', Dir []), (''b'', Dir [])]), (''Photos'', Dir [])],
      [(INFO, Moved_folder ''a'' ''Others''), (INFO, Moved_folder ''b'' ''Others''),
       (INFO, Organized)])
   \<and> main (\<lambda>n. if n = ''a.txt'' then Some PermissionError else None) ''Downloads'' folder_names
     filename_sorting_rules [(''a.txt'', File), (''b.txt'', File)]
   = ([(''a.txt'', File), (''Audio'', Dir []), (''Compressed'', Dir []),
       (''Code'', Dir []), (''Documents'', Dir [(''b.txt'', File)]), (''Images'', Dir []),
       (''Softwares'', Dir []), (''Videos'', Dir []), (''Torrents'', Dir []),
       (''WPbackup'', Dir []), (''Data'', Dir []), (''Maps'', Dir []), (''Graphics'', Dir []),
       (''Others'', Dir []), (''Photos'', Dir [])],
      [(ERROR, Could_not_move ''a.txt'' ''Documents'' PermissionError),
       (INFO, Moved_file ''b.txt'' ''Documents''), (INFO, Organized)])"
  by code_simp

section \<open>Targets are categories\<close>











section \<open>Sequences of moves\<close>









section \<open>The loop over the files\<close>





section \<open>The loop over the folders\<close>











section \<open>Creating the category folders, and the listing\<close>




















section \<open>Running twice\<close>




end
